theory Spec2Isabelle
  imports Complex_Main "HOL-Library.AList" "HOL-Library.Multiset"
begin

section \<open>The Airflow executor for Mesos: offers, filters, requirements\<close>

text \<open>
  The development follows the four modules of the plugin:
  \<^verbatim>\<open>mesos_support/filter.py\<close>, \<^verbatim>\<open>mesos_support/resource.py\<close>,
  \<^verbatim>\<open>mesos_support/scheduler.py\<close> and \<^verbatim>\<open>mesos_executor.py\<close>.
  Python exceptions are values of the type \<open>error\<close>; a function that may raise returns
  \<open>error + 'a\<close> with \<open>Inl\<close> for the exception.  Numbers are reals: the code only
  compares them, which Python does exactly, also between an integer and a double.
\<close>

datatype error =
    AmbiguousResource    \<comment> \<open>\<^verbatim>\<open>Exception("Found more than one resource for name ...")\<close>\<close>
  | UnhandledType        \<comment> \<open>\<^verbatim>\<open>Exception("Can't handle type ...")\<close>\<close>
  | UnknownMode          \<comment> \<open>\<^verbatim>\<open>Exception("Unknown mode ...")\<close>\<close>
  | NotImplementedError  \<comment> \<open>raised by \<^verbatim>\<open>check_set\<close> and \<^verbatim>\<open>check_text\<close>\<close>
  | ValueError           \<comment> \<open>\<^verbatim>\<open>list.remove(x)\<close> when \<^verbatim>\<open>x\<close> is not in the list\<close>
  | KeyError             \<comment> \<open>\<^verbatim>\<open>dict.pop(k)\<close> when \<^verbatim>\<open>k\<close> is not a key\<close>
  | TypeError            \<comment> \<open>unpacking \<^verbatim>\<open>None\<close> as a tuple, iterating a message\<close>
  | AttributeError       \<comment> \<open>reading an attribute that the object does not have\<close>

subsection \<open>Offers as the manager delivers them\<close>

text \<open>
  The kind tag of an offered resource is a value of the enumeration
  \<^verbatim>\<open>mesos_pb2.Value.Type\<close> of the Mesos protocol, which has the four members below.
  A resource message carries its scalar in \<^verbatim>\<open>scalar.value\<close> and its ranges in the
  message \<^verbatim>\<open>ranges\<close>, whose repeated field \<^verbatim>\<open>range\<close> holds the pairs of begin and
  end; the resource itself has no field \<^verbatim>\<open>range\<close>.
\<close>

datatype value_type = SCALAR | RANGES | SET | TEXT

record resource =
  res_name :: string
  res_type :: value_type
  res_scalar :: real                  \<comment> \<open>\<^verbatim>\<open>resource.scalar.value\<close>\<close>
  res_ranges :: "(real \<times> real) list"   \<comment> \<open>\<^verbatim>\<open>resource.ranges.range\<close>\<close>

record offer =
  offer_id :: string
  slave_id :: string
  hostname :: string
  resources :: "resource list"

subsection \<open>filter.py\<close>

definition INCLUDE :: string where
  "INCLUDE = ''include''"

definition EXCLUDE :: string where
  "EXCLUDE = ''exclude''"

text \<open>
  The two concrete filter classes.  A resource filter carries a name, a value and a mode;
  the mode is a Python string, and nothing in the constructor restricts it.
\<close>

datatype mesos_filter =
    AirflowMesosResourceFilter string real string
  | AirflowMesosHostnameFilter "string list" bool

text \<open>The list \<^verbatim>\<open>found\<close> of \<^verbatim>\<open>get_resource\<close>: the resources of the offer with the name asked for.\<close>

definition found :: "string \<Rightarrow> offer \<Rightarrow> resource list" where
  "found nm off = filter (\<lambda>resource. res_name resource = nm) (resources off)"

definition get_resource :: "string \<Rightarrow> offer \<Rightarrow> error + resource option" where
  "get_resource nm off =
     (if length (found nm off) > 1 then Inl AmbiguousResource
      else if length (found nm off) < 1 then Inr None
      else Inr (Some (found nm off ! 0)))"

definition check_scalar :: "real \<Rightarrow> string \<Rightarrow> resource \<Rightarrow> error + bool" where
  "check_scalar v mode r =
     (let resource_value = res_scalar r
      in if mode = INCLUDE then Inr (v \<le> resource_value)
         else if mode = EXCLUDE then Inr (v > resource_value)
         else Inl UnknownMode)"

text \<open>
  \<^verbatim>\<open>check_range\<close> starts by reading \<^verbatim>\<open>offer_resource.range\<close>, which a resource
  message does not have: the read raises \<^verbatim>\<open>AttributeError\<close> before the mode is looked
  at.
\<close>

definition check_range :: "real \<Rightarrow> string \<Rightarrow> resource \<Rightarrow> error + bool" where
  "check_range v mode r = Inl AttributeError"

text \<open>
  \<^verbatim>\<open>check_ranges\<close> iterates over \<^verbatim>\<open>offer_resource.ranges\<close>, the message, and not
  over its repeated field; a message is not iterable, so the \<^verbatim>\<open>for\<close> statement raises
  \<^verbatim>\<open>TypeError\<close> before the mode is looked at.
\<close>

definition check_ranges :: "real \<Rightarrow> string \<Rightarrow> resource \<Rightarrow> error + bool" where
  "check_ranges v mode r = Inl TypeError"

definition check_set :: "resource \<Rightarrow> error + bool" where
  "check_set r = Inl NotImplementedError"

definition check_text :: "resource \<Rightarrow> error + bool" where
  "check_text r = Inl NotImplementedError"

text \<open>
  The attribute \<^verbatim>\<open>mesos_pb2.Value.RANGE\<close> that the second comparison of \<^verbatim>\<open>check\<close>
  reads.  The enumeration has no such member, so reading it raises.
\<close>

definition Value_RANGE :: "error + value_type" where
  "Value_RANGE = Inl AttributeError"

text \<open>
  \<^verbatim>\<open>AirflowMesosResourceFilter.check\<close>.  The chain of comparisons is evaluated in
  order: for a resource that is not a scalar the second comparison is reached, and
  reading \<^verbatim>\<open>mesos_pb2.Value.RANGE\<close> raises before any later branch is tried.
\<close>

definition resource_filter_check :: "string \<Rightarrow> real \<Rightarrow> string \<Rightarrow> offer \<Rightarrow> error + bool" where
  "resource_filter_check nm v mode off =
     (case get_resource nm off of
        Inl e \<Rightarrow> Inl e
      | Inr None \<Rightarrow> Inr False
      | Inr (Some r) \<Rightarrow>
          (if res_type r = SCALAR then check_scalar v mode r
           else (case Value_RANGE of
                   Inl e \<Rightarrow> Inl e
                 | Inr range_type \<Rightarrow>
                     (if res_type r = range_type then check_range v mode r
                      else if res_type r = RANGES then check_ranges v mode r
                      else if res_type r = SET then check_set r
                      else if res_type r = TEXT then check_text r
                      else Inl UnhandledType))))"

definition hostname_filter_check :: "string list \<Rightarrow> bool \<Rightarrow> offer \<Rightarrow> bool" where
  "hostname_filter_check hostnames exclude off =
     (let has_hostname = (hostname off \<in> set hostnames \<or> ''*'' \<in> set hostnames)
      in if \<not> exclude then has_hostname else \<not> has_hostname)"

fun filter_check :: "mesos_filter \<Rightarrow> offer \<Rightarrow> error + bool" where
  "filter_check (AirflowMesosResourceFilter nm v mode) off = resource_filter_check nm v mode off"
| "filter_check (AirflowMesosHostnameFilter hostnames exclude) off =
     Inr (hostname_filter_check hostnames exclude off)"

text \<open>
  \<^verbatim>\<open>AirflowMesosOfferFilter.check\<close>: the constituents are evaluated in order, the first
  one that fails ends the evaluation, and an exception of a constituent propagates.
\<close>

fun offer_filter_check :: "mesos_filter list \<Rightarrow> offer \<Rightarrow> error + bool" where
  "offer_filter_check [] off = Inr True"
| "offer_filter_check (f # fs) off =
     (case filter_check f off of
        Inl e \<Rightarrow> Inl e
      | Inr b \<Rightarrow> if \<not> b then Inr False else offer_filter_check fs off)"

subsection \<open>resource.py\<close>

text \<open>
  The value of a hostname requirement is one hostname or a list of them.  Equality of
  requirements is equality of their attribute dictionaries (\<^verbatim>\<open>__eq__\<close>), which for
  the two concrete classes is equality of the constructor arguments.
\<close>

datatype hostnames_value = HostOne string | HostMany "string list"

datatype mesos_resource =
    MesosScalarResource string real
  | MesosHostnameResource hostnames_value bool

fun name :: "mesos_resource \<Rightarrow> string" where
  "name (MesosScalarResource nm v) = nm"
| "name (MesosHostnameResource v exclude) = ''hostname''"

fun to_filter :: "mesos_resource \<Rightarrow> mesos_filter" where
  "to_filter (MesosScalarResource nm v) = AirflowMesosResourceFilter nm v INCLUDE"
| "to_filter (MesosHostnameResource (HostOne h) exclude) = AirflowMesosHostnameFilter [h] exclude"
| "to_filter (MesosHostnameResource (HostMany hs) exclude) = AirflowMesosHostnameFilter hs exclude"

text \<open>\<^verbatim>\<open>list.remove(x)\<close>: drops the first element equal to \<open>x\<close>, raises when there is none.\<close>

fun list_remove :: "'a \<Rightarrow> 'a list \<Rightarrow> error + 'a list" where
  "list_remove x [] = Inl ValueError"
| "list_remove x (y # ys) =
     (if y = x then Inr ys
      else (case list_remove x ys of Inl e \<Rightarrow> Inl e | Inr zs \<Rightarrow> Inr (y # zs)))"

text \<open>
  The inner loop of \<^verbatim>\<open>merge_resources\<close> for one override: it walks the defaults as
  they were passed in and removes from the result list every default of the same name.
\<close>

fun remove_defaults ::
  "mesos_resource \<Rightarrow> mesos_resource list \<Rightarrow> mesos_resource list \<Rightarrow> error + mesos_resource list"
where
  "remove_defaults task_resource [] rs = Inr rs"
| "remove_defaults task_resource (default_resource # ds) rs =
     (if name task_resource = name default_resource
      then (case list_remove default_resource rs of
              Inl e \<Rightarrow> Inl e
            | Inr rs' \<Rightarrow> remove_defaults task_resource ds rs')
      else remove_defaults task_resource ds rs)"

fun merge_loop ::
  "mesos_resource list \<Rightarrow> mesos_resource list \<Rightarrow> mesos_resource list \<Rightarrow> error + mesos_resource list"
where
  "merge_loop default_resources [] rs = Inr rs"
| "merge_loop default_resources (task_resource # ts) rs =
     (case remove_defaults task_resource default_resources rs of
        Inl e \<Rightarrow> Inl e
      | Inr rs' \<Rightarrow> merge_loop default_resources ts (rs' @ [task_resource]))"

definition merge_resources ::
  "mesos_resource list \<Rightarrow> mesos_resource list \<Rightarrow> error + mesos_resource list"
where
  "merge_resources default_resources task_resources =
     merge_loop default_resources task_resources default_resources"

subsection \<open>scheduler.py: the session state\<close>

text \<open>
  A work item is the tuple \<^verbatim>\<open>(key, command, task_instance)\<close> that the executor puts on
  the queue.  The key is \<^verbatim>\<open>(dag_id, task_id, execution_date)\<close>, the date in the rendering
  that goes into task identifiers.  Of the task instance the scheduler only uses the
  \<^verbatim>\<open>mesos_resources\<close> attribute of its operator, which the workflow engine resolves;
  \<open>None\<close> stands for an operator without that attribute.
\<close>

type_synonym key = "string \<times> string \<times> string"

record work_item =
  wi_key :: key
  wi_command :: string
  wi_mesos_resources :: "mesos_resource list option"

datatype task_state =
    TASK_STAGING | TASK_STARTING | TASK_RUNNING | TASK_KILLING
  | TASK_FINISHED | TASK_FAILED | TASK_KILLED | TASK_ERROR | TASK_LOST
  | TASK_DROPPED | TASK_UNREACHABLE | TASK_GONE | TASK_GONE_BY_OPERATOR | TASK_UNKNOWN

record task_status =
  st_task_id :: string
  st_state :: task_state
  st_message :: string

datatype airflow_state = SUCCESS | FAILED

text \<open>The value of the tracking dictionary: \<^verbatim>\<open>{'key': ..., 'status': ...}\<close>.\<close>

record in_flight =
  key :: key
  status :: "task_status option"

text \<open>
  The task description handed to the driver.  The display name of the task, which repeats
  the counter and the key, is left out.
\<close>

record task_info =
  ti_task_id :: string
  ti_slave_id :: string
  ti_resources :: "resource list"
  ti_command :: string

text \<open>The requests the code makes to the manager driver, in the order it makes them.\<close>

datatype driver_call =
    LaunchTasks "string list" "task_info list"
  | ReconcileTasks "task_status list"
  | SuppressOffers
  | ReviveOffers

text \<open>
  The executor and its scheduler share the two queues and the tracking dictionary by
  reference, so one record holds them: the queues and the dictionary, the fields of the
  scheduler (\<open>current_task\<close>, \<open>task_counter\<close>), the flag of the executor
  (\<open>suppressed\<close>) and the trace of driver requests.  The tracking dictionary is an
  association list; assignment is \<^const>\<open>AList.update\<close>, removal \<^const>\<open>AList.delete\<close>.
\<close>

record session =
  scheduler_tasks :: "work_item list"
  scheduler_results :: "(key \<times> airflow_state) list"
  current_task :: "work_item option"
  mesos_task_to_airflow_task :: "(string \<times> in_flight) list"
  task_counter :: nat
  suppressed :: bool
  driver_calls :: "driver_call list"

definition driver_request :: "driver_call \<Rightarrow> session \<Rightarrow> session" where
  "driver_request c s = s\<lparr>driver_calls := driver_calls s @ [c]\<rparr>"

subsection \<open>scheduler.py: launching\<close>

fun show_nat :: "nat \<Rightarrow> string" where
  "show_nat n =
     (if n < 10 then [char_of (48 + n)]
      else show_nat (n div 10) @ [char_of (48 + n mod 10)])"

declare show_nat.simps [simp del]

text \<open>
  \<^verbatim>\<open>add\<close> assigns the value of a scalar requirement to the field
  \<^verbatim>\<open>scalar.value\<close> of a new resource of the task.  The field is a double, and the
  protocol buffer library converts the Python number it is given; that conversion is the
  parameter \<open>to_double\<close> here and in the functions that reach \<^verbatim>\<open>add\<close>.
\<close>

fun add :: "(real \<Rightarrow> real) \<Rightarrow> mesos_resource \<Rightarrow> resource list \<Rightarrow> resource list" where
  "add to_double (MesosScalarResource nm v) rs =
     rs @ [\<lparr>res_name = nm, res_type = SCALAR, res_scalar = to_double v, res_ranges = []\<rparr>]"
| "add to_double (MesosHostnameResource v exclude) rs = rs"

definition build_task_info ::
  "(real \<Rightarrow> real) \<Rightarrow> session \<Rightarrow> key \<Rightarrow> string \<Rightarrow> mesos_resource list \<Rightarrow> offer
     \<Rightarrow> session \<times> task_info"
where
  "build_task_info to_double s k command needed_resources off =
     (let tid = task_counter s;
          s' = s\<lparr>task_counter := task_counter s + 1\<rparr>;
          task = \<lparr>ti_task_id = ''airflow:'' @ show_nat tid @ '':'' @ fst k @ '':''
                                @ fst (snd k) @ '':'' @ snd (snd k),
                  ti_slave_id = slave_id off,
                  ti_resources = fold (add to_double) needed_resources [],
                  ti_command = command\<rparr>
      in (s', task))"

definition get_operator_mesos_resources ::
  "mesos_resource list \<Rightarrow> work_item \<Rightarrow> error + mesos_resource list"
where
  "get_operator_mesos_resources default_resources item =
     (case wi_mesos_resources item of
        None \<Rightarrow> Inr default_resources
      | Some task_resources \<Rightarrow> merge_resources default_resources task_resources)"

fun find_offer_loop :: "mesos_filter list \<Rightarrow> offer list \<Rightarrow> error + offer option" where
  "find_offer_loop fs [] = Inr None"
| "find_offer_loop fs (off # offs) =
     (case offer_filter_check fs off of
        Inl e \<Rightarrow> Inl e
      | Inr b \<Rightarrow> if b then Inr (Some off) else find_offer_loop fs offs)"

definition find_offer :: "offer list \<Rightarrow> mesos_resource list \<Rightarrow> error + offer option" where
  "find_offer offers needed_resources = find_offer_loop (map to_filter needed_resources) offers"

text \<open>
  \<^verbatim>\<open>launch_current_task\<close>.  The second argument is the configured list of default
  requirements (\<^verbatim>\<open>default_resources()\<close>).  The state is returned also when the call
  raises, since what it had changed by then stays changed.
\<close>

definition launch_current_task ::
  "(real \<Rightarrow> real) \<Rightarrow> mesos_resource list \<Rightarrow> session \<Rightarrow> offer list
     \<Rightarrow> session \<times> (error + offer option)"
where
  "launch_current_task to_double default_resources s offers =
     (case current_task s of
        None \<Rightarrow> (s, Inl TypeError)
      | Some item \<Rightarrow>
          (case get_operator_mesos_resources default_resources item of
             Inl e \<Rightarrow> (s, Inl e)
           | Inr needed_resources \<Rightarrow>
               (case find_offer offers needed_resources of
                  Inl e \<Rightarrow> (s, Inl e)
                | Inr None \<Rightarrow> (s, Inr None)
                | Inr (Some off) \<Rightarrow>
                    (let (s1, task) = build_task_info to_double s (wi_key item) (wi_command item)
                                        needed_resources off;
                         s2 = driver_request (LaunchTasks [offer_id off] [task]) s1;
                         s3 = s2\<lparr>mesos_task_to_airflow_task :=
                                   AList.update (ti_task_id task) \<lparr>key = wi_key item, status = None\<rparr>
                                     (mesos_task_to_airflow_task s2)\<rparr>
                     in (s3, Inr (Some off))))))"

subsection \<open>scheduler.py: one round of offers\<close>

text \<open>
  \<^verbatim>\<open>self.scheduler_tasks.get()\<close> on the queue, which the loop only calls when the queue
  is not empty.
\<close>

definition queue_get :: "session \<Rightarrow> session" where
  "queue_get s =
     (case scheduler_tasks s of
        [] \<Rightarrow> s
      | item # items \<Rightarrow> s\<lparr>current_task := Some item, scheduler_tasks := items\<rparr>)"

text \<open>
  The \<^verbatim>\<open>while\<close> loop of \<^verbatim>\<open>resourceOffers\<close>.  It returns the state and either the
  offers left in the working pool or the exception that ended it.  Setting \<^verbatim>\<open>loop\<close>
  to false is the branch that returns without a recursive call.
\<close>

function match_loop ::
  "(real \<Rightarrow> real) \<Rightarrow> mesos_resource list \<Rightarrow> session \<Rightarrow> offer list
     \<Rightarrow> session \<times> (error + offer list)"
where
  "match_loop to_double default_resources s available_offers =
     (if (scheduler_tasks s \<noteq> [] \<or> current_task s \<noteq> None) \<and> length available_offers > 0
      then
        (let s1 = (if current_task s = None then queue_get s else s)
         in case launch_current_task to_double default_resources s1 available_offers of
              (s2, Inl e) \<Rightarrow> (s2, Inl e)
            | (s2, Inr (Some on_offer)) \<Rightarrow>
                (case list_remove on_offer available_offers of
                   Inl e \<Rightarrow> (s2\<lparr>current_task := None\<rparr>, Inl e)
                 | Inr rest \<Rightarrow>
                     match_loop to_double default_resources (s2\<lparr>current_task := None\<rparr>) rest)
            | (s2, Inr None) \<Rightarrow> (s2, Inr available_offers))
      else (s, Inr available_offers))"
  by pat_completeness auto
termination
proof -
  have shorter: "length ys < length xs" if "list_remove x xs = Inr ys"
    for x :: offer and xs ys
    using that by (induction xs arbitrary: ys) (auto split: if_splits sum.splits)
  show ?thesis
    by (relation "measure (\<lambda>(c, d, s, offs). length offs)") (auto simp: shorter)
qed

declare match_loop.simps [simp del]

text \<open>
  \<^verbatim>\<open>resourceOffers\<close>: the \<^verbatim>\<open>try\<close> block releases what the loop left, the
  \<^verbatim>\<open>except Exception\<close> handler releases the batch as it was delivered.
\<close>

definition resourceOffers ::
  "(real \<Rightarrow> real) \<Rightarrow> mesos_resource list \<Rightarrow> session \<Rightarrow> offer list \<Rightarrow> session"
where
  "resourceOffers to_double default_resources s offers =
     (case match_loop to_double default_resources s offers of
        (s', Inr available_offers) \<Rightarrow>
          driver_request (LaunchTasks (map offer_id available_offers) []) s'
      | (s', Inl err) \<Rightarrow>
          driver_request (LaunchTasks (map offer_id offers) []) s')"

subsection \<open>scheduler.py: status updates and reconciliation\<close>

definition dict_pop :: "'k \<Rightarrow> ('k \<times> 'v) list \<Rightarrow> error + ('k \<times> 'v) list" where
  "dict_pop k d = (if map_of d k = None then Inl KeyError else Inr (AList.delete k d))"

definition put_result :: "key \<Rightarrow> airflow_state \<Rightarrow> session \<Rightarrow> session" where
  "put_result k outcome s = s\<lparr>scheduler_results := scheduler_results s @ [(k, outcome)]\<rparr>"

definition statusUpdate :: "session \<Rightarrow> task_status \<Rightarrow> error + session" where
  "statusUpdate s st =
     (let task_id = st_task_id st
      in case map_of (mesos_task_to_airflow_task s) task_id of
           None \<Rightarrow> Inr s
         | Some d \<Rightarrow>
             (let k = key d;
                  s1 = s\<lparr>mesos_task_to_airflow_task :=
                           AList.update task_id \<lparr>key = k, status = Some st\<rparr>
                             (mesos_task_to_airflow_task s)\<rparr>
              in if st_state st = TASK_FINISHED
                 then (case dict_pop task_id (mesos_task_to_airflow_task s1) of
                         Inl e \<Rightarrow> Inl e
                       | Inr m \<Rightarrow> Inr (put_result k SUCCESS (s1\<lparr>mesos_task_to_airflow_task := m\<rparr>)))
                 else if st_state st \<in> set [TASK_FAILED, TASK_KILLED, TASK_ERROR, TASK_LOST]
                 then (case dict_pop task_id (mesos_task_to_airflow_task s1) of
                         Inl e \<Rightarrow> Inl e
                       | Inr m \<Rightarrow> Inr (put_result k FAILED (s1\<lparr>mesos_task_to_airflow_task := m\<rparr>)))
                 else Inr s1))"

definition reconcile :: "session \<Rightarrow> session" where
  "reconcile s =
     (if mesos_task_to_airflow_task s \<noteq> []
      then (let known_status = filter (\<lambda>task. status task \<noteq> None)
                                 (map snd (mesos_task_to_airflow_task s))
            in driver_request (ReconcileTasks (map (\<lambda>task. the (status task)) known_status)) s)
      else s)"

subsection \<open>mesos_executor.py: suppressing and reviving offers\<close>

definition mesos_suppress_revive :: "session \<Rightarrow> session" where
  "mesos_suppress_revive s =
     (let s1 = (if scheduler_tasks s = [] \<and> \<not> suppressed s
                then driver_request SuppressOffers (s\<lparr>suppressed := True\<rparr>)
                else s)
      in if scheduler_tasks s1 \<noteq> [] \<and> suppressed s1
         then driver_request ReviveOffers (s1\<lparr>suppressed := False\<rparr>)
         else s1)"

subsection \<open>Observations on a round of offers\<close>

text \<open>
  The work that waits, in the order in which the loop takes it: the current item, if
  there is one, and then the queue.
\<close>

definition pending :: "session \<Rightarrow> work_item list" where
  "pending s = (case current_task s of None \<Rightarrow> [] | Some item \<Rightarrow> [item]) @ scheduler_tasks s"

text \<open>The request that launches one work item on one offer.\<close>

definition launch_call :: "work_item \<times> offer \<times> task_info \<Rightarrow> driver_call" where
  "launch_call u = LaunchTasks [offer_id (fst (snd u))] [snd (snd u)]"

text \<open>
  The loop stopped for want of an offer: there is a current item, its requirements
  resolve, and the filter built from them rejects every offer of the pool.
\<close>

definition unmatched :: "mesos_resource list \<Rightarrow> session \<Rightarrow> offer list \<Rightarrow> bool" where
  "unmatched dr s' rest \<longleftrightarrow>
     (\<exists>item needed. current_task s' = Some item
        \<and> get_operator_mesos_resources dr item = Inr needed
        \<and> (\<forall>off\<in>set rest. offer_filter_check (map to_filter needed) off = Inr False))"

text \<open>
  What a run of the loop from \<open>s\<close> with the pool \<open>offers\<close> to \<open>s'\<close> did, given the list
  \<open>used\<close> of its launches in order: the driver saw exactly these launches, the items
  launched are the front of the waiting work, and when the loop ended without an
  exception, the offers used and the offers left are the offers delivered.
\<close>

definition round_ok ::
  "mesos_resource list \<Rightarrow> session \<Rightarrow> offer list \<Rightarrow> session \<Rightarrow> error + offer list
     \<Rightarrow> (work_item \<times> offer \<times> task_info) list \<Rightarrow> bool"
where
  "round_ok dr s offers s' res used \<longleftrightarrow>
     driver_calls s' = driver_calls s @ map launch_call used
   \<and> pending s = map fst used @ pending s'
   \<and> (case res of
         Inl e \<Rightarrow> True
       | Inr rest \<Rightarrow> mset (map (fst \<circ> snd) used) + mset rest = mset offers
                    \<and> (rest \<noteq> [] \<and> pending s' \<noteq> [] \<longrightarrow> unmatched dr s' rest))"

text \<open>
  The states and pools that a round comes to by launching: a round that starts in \<open>s\<close>
  with the batch \<open>offers\<close> is at \<open>s\<close> with the whole batch, and from a state \<open>s1\<close> with
  the pool \<open>pool\<close> it comes, when \<^verbatim>\<open>launch_current_task\<close> launches the first waiting
  item on an offer of the pool, to the state after that launch with the current item
  cleared and that offer removed from the pool.
\<close>

inductive launches ::
  "(real \<Rightarrow> real) \<Rightarrow> mesos_resource list \<Rightarrow> session \<Rightarrow> offer list \<Rightarrow> session \<Rightarrow> offer list
     \<Rightarrow> bool"
  for to_double default_resources s offers
where
  launches_none: "launches to_double default_resources s offers s offers"
| launches_one:
    "launches to_double default_resources s offers s1 pool \<Longrightarrow>
     pending s1 = item # waiting \<Longrightarrow>
     launch_current_task to_double default_resources
       (s1\<lparr>current_task := Some item, scheduler_tasks := waiting\<rparr>) pool
       = (s2, Inr (Some off)) \<Longrightarrow>
     list_remove off pool = Inr pool' \<Longrightarrow>
     launches to_double default_resources s offers (s2\<lparr>current_task := None\<rparr>) pool'"

text \<open>
  Resolving the requirements of an item or evaluating its filter on the pool raises \<open>e\<close>:
  either \<^verbatim>\<open>merge_resources\<close> raises, or the filter rejects the offers \<open>pre\<close> and raises
  on the offer that follows them.
\<close>

definition matching_raises ::
  "mesos_resource list \<Rightarrow> work_item \<Rightarrow> offer list \<Rightarrow> error \<Rightarrow> bool"
where
  "matching_raises default_resources item pool e \<longleftrightarrow>
     get_operator_mesos_resources default_resources item = Inl e
     \<or> (\<exists>needed pre bad post.
           get_operator_mesos_resources default_resources item = Inr needed
         \<and> pool = pre @ bad # post
         \<and> (\<forall>p\<in>set pre. offer_filter_check (map to_filter needed) p = Inr False)
         \<and> offer_filter_check (map to_filter needed) bad = Inl e)"

subsection \<open>Example data\<close>

text \<open>Concrete offers, statuses and sessions, used to instantiate the theorems below.\<close>

definition example_key :: key where
  "example_key = (''dag'', ''task'', ''20200101000000000000'')"

definition example_task_id :: string where
  "example_task_id = ''airflow:0:dag:task:20200101000000000000''"

definition example_status :: "string \<Rightarrow> task_state \<Rightarrow> task_status" where
  "example_status tid st = \<lparr>st_task_id = tid, st_state = st, st_message = ''''\<rparr>"

definition idle_session :: session where
  "idle_session =
     \<lparr>scheduler_tasks = [], scheduler_results = [], current_task = None,
      mesos_task_to_airflow_task = [], task_counter = 0, suppressed = False,
      driver_calls = []\<rparr>"

definition tracking_session :: session where
  "tracking_session =
     idle_session\<lparr>mesos_task_to_airflow_task :=
                    [(example_task_id, \<lparr>key = example_key, status = None\<rparr>)],
                  task_counter := 1, suppressed := True\<rparr>"

definition cpus_offer :: "string \<Rightarrow> real \<Rightarrow> offer" where
  "cpus_offer oid v =
     \<lparr>offer_id = oid, slave_id = ''slave-'' @ oid, hostname = ''host-'' @ oid,
      resources = [\<lparr>res_name = ''cpus'', res_type = SCALAR, res_scalar = v,
                    res_ranges = []\<rparr>]\<rparr>"

definition example_item :: "string \<Rightarrow> real \<Rightarrow> work_item" where
  "example_item tid v =
     \<lparr>wi_key = (''dag'', tid, ''20200101000000000000''), wi_command = ''run '' @ tid,
      wi_mesos_resources = Some [MesosScalarResource ''cpus'' v]\<rparr>"

definition queued_session :: "work_item list \<Rightarrow> session" where
  "queued_session items = idle_session\<lparr>scheduler_tasks := items\<rparr>"

definition ambiguous_offer :: offer where
  "ambiguous_offer =
     \<lparr>offer_id = ''o9'', slave_id = ''slave-o9'', hostname = ''host-o9'',
      resources = [\<lparr>res_name = ''cpus'', res_type = SCALAR, res_scalar = 1,
                    res_ranges = []\<rparr>,
                   \<lparr>res_name = ''cpus'', res_type = SCALAR, res_scalar = 2,
                    res_ranges = []\<rparr>]\<rparr>"

text \<open>A conversion to doubles for the examples, whose numbers are doubles already.\<close>

definition example_double :: "real \<Rightarrow> real" where
  "example_double v = v"

definition ports_resource :: resource where
  "ports_resource =
     \<lparr>res_name = ''ports'', res_type = RANGES, res_scalar = 0,
      res_ranges = [(31000, 32000)]\<rparr>"

definition ports_offer :: offer where
  "ports_offer =
     \<lparr>offer_id = ''o5'', slave_id = ''slave-o5'', hostname = ''host-o5'',
      resources = [\<lparr>res_name = ''cpus'', res_type = SCALAR, res_scalar = 4,
                    res_ranges = []\<rparr>, ports_resource]\<rparr>"

definition other_task_id :: string where
  "other_task_id = ''airflow:1:dag:other:20200101000000000000''"

definition reporting_session :: session where
  "reporting_session =
     tracking_session\<lparr>mesos_task_to_airflow_task :=
       [(example_task_id, \<lparr>key = example_key, status = None\<rparr>),
        (other_task_id,
         \<lparr>key = (''dag'', ''other'', ''20200101000000000000''),
          status = Some (example_status other_task_id TASK_RUNNING)\<rparr>)],
       task_counter := 2\<rparr>"

section \<open>Properties of the filters\<close>

lemma get_resource_cases:
  "get_resource nm off =
     (case found nm off of
        [] \<Rightarrow> Inr None
      | [r] \<Rightarrow> Inr (Some r)
      | _ \<Rightarrow> Inl AmbiguousResource)"
  by (auto simp: get_resource_def split: list.splits)



lemma non_scalar_resource_raises:
  assumes "found nm off = [r]" and "res_type r \<noteq> SCALAR"
  shows "filter_check (AirflowMesosResourceFilter nm v mode) off = Inl AttributeError"
  using assms
  by (simp add: resource_filter_check_def get_resource_cases Value_RANGE_def)

lemma resource_filter_raises_iff:
  "(\<exists>e. filter_check (AirflowMesosResourceFilter nm v mode) off = Inl e) \<longleftrightarrow>
     (length (found nm off) > 1 \<or>
      (\<exists>r. found nm off = [r] \<and>
         (res_type r \<noteq> SCALAR \<or> (mode \<noteq> INCLUDE \<and> mode \<noteq> EXCLUDE))))"
proof (cases "found nm off")
  case Nil
  then show ?thesis
    by (simp add: resource_filter_check_def get_resource_cases)
next
  case (Cons r rs)
  show ?thesis
  proof (cases rs)
    case Nil
    with Cons have one: "found nm off = [r]" by simp
    show ?thesis
      by (auto simp: one resource_filter_check_def get_resource_cases check_scalar_def
            Value_RANGE_def Let_def)
  next
    case (Cons r' rs')
    with \<open>found nm off = r # rs\<close> show ?thesis
      by (simp add: resource_filter_check_def get_resource_cases)
  qed
qed

text \<open>
  C7.  The code does not do what the claim says when the resource named by the
  requirement is of ranges kind.  The claim lets evaluation raise only for an ambiguous
  name or a resource of set or text kind.  The filter of the requirement
  \<open>ports: 31000\<close>, evaluated against an offer whose only resource named \<open>ports\<close> is a
  set of ranges, raises \<^verbatim>\<open>AttributeError\<close>: the comparison with
  \<^verbatim>\<open>mesos_pb2.Value.RANGE\<close> reads a member that the enumeration does not have, before
  the branch for ranges is reached.  The same holds of every resource that is not a
  scalar, whatever the mode (\<open>non_scalar_resource_raises\<close>).
\<close>

theorem ranges_resource_raises:
  "filter_check (to_filter (MesosScalarResource ''ports'' 31000)) ports_offer
     = Inl AttributeError
   \<and> found ''ports'' ports_offer = [ports_resource]
   \<and> res_type ports_resource = RANGES"
  by (simp add: resource_filter_check_def get_resource_cases found_def ports_offer_def
        ports_resource_def Value_RANGE_def)

section \<open>Properties of merging requirements\<close>

lemma list_remove_eq:
  "list_remove x xs = (if x \<in> set xs then Inr (remove1 x xs) else Inl ValueError)"
  by (induction xs) auto

lemma remove_defaults_nomatch:
  "name t \<notin> name ` set ds \<Longrightarrow> remove_defaults t ds rs = Inr rs"
  by (induction ds arbitrary: rs) auto

lemma remove_defaults_match:
  assumes "filter (\<lambda>d. name d = name t) ds = filter (\<lambda>d. name d = name t) A"
    and "\<forall>p\<in>set P. name p \<noteq> name t"
  shows "remove_defaults t ds (A @ P) = Inr (filter (\<lambda>d. name d \<noteq> name t) A @ P)"
  using assms
proof (induction ds arbitrary: A)
  case Nil
  from Nil.prems(1)[symmetric] have "filter (\<lambda>d. name d \<noteq> name t) A = A"
    by (simp add: filter_empty_conv filter_id_conv)
  then show ?case by simp
next
  case (Cons d ds)
  show ?case
  proof (cases "name t = name d")
    case True
    with Cons.prems(1) have fA: "filter (\<lambda>d. name d = name t) A = d # filter (\<lambda>d. name d = name t) ds"
      by simp
    then have "d \<in> set (filter (\<lambda>d. name d = name t) A)"
      by simp
    then have dA: "d \<in> set A"
      by simp
    have rem: "list_remove d (A @ P) = Inr (remove1 d A @ P)"
      using dA by (simp add: list_remove_eq remove1_append)
    have f1: "filter (\<lambda>d. name d = name t) ds = filter (\<lambda>d. name d = name t) (remove1 d A)"
      by (simp add: filter_remove1 fA)
    have f2: "filter (\<lambda>d. name d \<noteq> name t) (remove1 d A) = filter (\<lambda>d. name d \<noteq> name t) A"
      using True by (simp add: filter_remove1 remove1_idem)
    show ?thesis
      using True rem Cons.IH[OF f1 Cons.prems(2)] f2 by simp
  next
    case False
    with Cons show ?thesis by simp
  qed
qed

lemma merge_loop_ok:
  assumes "distinct (map name (filter (\<lambda>t. name t \<in> name ` set ds) ts))"
    and "\<forall>p\<in>set done. name p \<in> name ` set ds \<longrightarrow> name p \<notin> name ` set ts"
  shows "merge_loop ds ts (filter (\<lambda>d. name d \<notin> name ` set done) ds @ done)
         = Inr (filter (\<lambda>d. name d \<notin> name ` set (done @ ts)) ds @ done @ ts)"
  using assms
proof (induction ts arbitrary: "done")
  case Nil
  then show ?case by simp
next
  case (Cons t ts)
  let ?A = "filter (\<lambda>d. name d \<notin> name ` set done) ds"
  have step: "remove_defaults t ds (?A @ done) = Inr (filter (\<lambda>d. name d \<notin> name ` set (done @ [t])) ds @ done)"
  proof (cases "name t \<in> name ` set ds")
    case True
    have nd: "\<forall>p\<in>set done. name p \<noteq> name t"
      using Cons.prems(2) True by auto
    have e1: "filter (\<lambda>d. name d = name t) ds = filter (\<lambda>d. name d = name t) ?A"
      unfolding filter_filter by (rule filter_cong) (use nd in auto)
    have e2: "filter (\<lambda>d. name d \<noteq> name t) ?A = filter (\<lambda>d. name d \<notin> name ` set (done @ [t])) ds"
      unfolding filter_filter by (rule filter_cong) auto
    show ?thesis
      using remove_defaults_match[OF e1 nd] unfolding e2 .
  next
    case False
    then have "\<And>x. x \<in> set ds \<Longrightarrow> name x \<noteq> name t"
      by (metis imageI)
    then have "filter (\<lambda>d. name d \<notin> name ` set (done @ [t])) ds = ?A"
      by (intro filter_cong) auto
    with False show ?thesis by (simp add: remove_defaults_nomatch)
  qed
  have d': "distinct (map name (filter (\<lambda>t. name t \<in> name ` set ds) ts))"
    using Cons.prems(1) by (auto split: if_splits)
  have p': "\<forall>p\<in>set (done @ [t]). name p \<in> name ` set ds \<longrightarrow> name p \<notin> name ` set ts"
    using Cons.prems by (auto split: if_splits)
  from Cons.IH[OF d' p'] step show ?case by simp
qed

text \<open>
  C5, as the claim states it, fails: with two overrides of a name that a default bears,
  the second override tries to remove the default again, and \<^verbatim>\<open>list.remove\<close> raises
  \<^verbatim>\<open>ValueError\<close> instead of returning a merged list.
\<close>

theorem merge_resources_counterexample:
  "merge_resources [MesosScalarResource ''cpu'' 0.1]
     [MesosScalarResource ''cpu'' 4.0, MesosScalarResource ''cpu'' 8.0] = Inl ValueError"
  by (simp add: merge_resources_def)

text \<open>
  C5, amended.  Whenever no two overrides share a name that a default bears, the merge
  returns the defaults whose name no override bears, unchanged and in their original
  order, followed by the overrides in their original order; a default whose name some
  override bears is dropped, and no values are added up.  In particular the defaults
  \<open>cpu: 0.1\<close> merged with the overrides \<open>cpu: 4.0\<close> give \<open>cpu: 4.0\<close>.
\<close>

theorem merge_resources_result:
  assumes "distinct (map name (filter (\<lambda>t. name t \<in> name ` set default_resources) task_resources))"
  shows "merge_resources default_resources task_resources
         = Inr (filter (\<lambda>d. name d \<notin> name ` set task_resources) default_resources @ task_resources)"
  using merge_loop_ok[OF assms, of "[]"] by (simp add: merge_resources_def)

theorem merge_resources_result_witness:
  "merge_resources [MesosScalarResource ''cpu'' 0.1] [MesosScalarResource ''cpu'' 4.0]
   = Inr [MesosScalarResource ''cpu'' 4.0]"
  using merge_resources_result
    [of "[MesosScalarResource ''cpu'' 0.1]" "[MesosScalarResource ''cpu'' 4.0]"]
  by simp

lemma remove_defaults_error: "remove_defaults t ds rs = Inl e \<Longrightarrow> e = ValueError"
  by (induction ds arbitrary: rs) (auto simp: list_remove_eq split: if_splits sum.splits)

lemma merge_loop_error: "merge_loop ds ts rs = Inl e \<Longrightarrow> e = ValueError"
  by (induction ts arbitrary: rs) (auto split: sum.splits dest: remove_defaults_error)

lemma remove_defaults_count:
  assumes "remove_defaults t ds' rs = Inr rs'"
    and "\<forall>d\<in>set ds'. name d = n \<longrightarrow> P d"
    and "\<forall>x. P x \<longrightarrow> name x = n"
  shows "length (filter P rs) =
         length (filter P rs') + (if name t = n then length (filter (\<lambda>d. name d = n) ds') else 0)"
  using assms
proof (induction ds' arbitrary: rs)
  case Nil
  then show ?case by simp
next
  case (Cons d ds')
  show ?case
  proof (cases "name t = name d")
    case True
    with Cons.prems(1) obtain r1 where r1: "list_remove d rs = Inr r1"
      and rest: "remove_defaults t ds' r1 = Inr rs'"
      by (auto split: sum.splits)
    from r1 have din: "d \<in> set rs" and r1eq: "r1 = remove1 d rs"
      by (auto simp: list_remove_eq split: if_splits)
    have ih: "length (filter P r1) =
         length (filter P rs') + (if name t = n then length (filter (\<lambda>d. name d = n) ds') else 0)"
      using Cons.IH[OF rest] Cons.prems(2,3) by simp
    show ?thesis
    proof (cases "name d = n")
      case dn: True
      then have "P d" using Cons.prems(2) by simp
      then have m: "d \<in> set (filter P rs)" using din by simp
      then have pos: "0 < length (filter P rs)"
        by (rule length_pos_if_in_set)
      have "length (filter P r1) = length (filter P rs) - 1"
        unfolding r1eq filter_remove1 using m by (simp add: length_remove1)
      with pos have cnt: "length (filter P rs) = Suc (length (filter P r1))"
        by linarith
      show ?thesis using ih True dn cnt by simp
    next
      case dn: False
      then have "\<not> P d" using Cons.prems(3) by auto
      then have "filter P r1 = filter P rs"
        unfolding r1eq by (simp add: filter_remove1 remove1_idem)
      with ih True dn show ?thesis by simp
    qed
  next
    case False
    with Cons show ?thesis by auto
  qed
qed

lemma merge_loop_count:
  assumes "merge_loop ds ts rs = Inr r"
    and "\<forall>d\<in>set ds. name d = n \<longrightarrow> P d"
    and "\<forall>x. P x \<longrightarrow> name x = n"
    and "\<forall>t\<in>set ts. \<not> P t"
  shows "length (filter (\<lambda>d. name d = n) ds) * length (filter (\<lambda>t. name t = n) ts)
         \<le> length (filter P rs)"
  using assms(1,4)
proof (induction ts arbitrary: rs)
  case Nil
  then show ?case by simp
next
  case (Cons t ts)
  from Cons.prems(1) obtain rs' where rd: "remove_defaults t ds rs = Inr rs'"
    and ml: "merge_loop ds ts (rs' @ [t]) = Inr r"
    by (cases "remove_defaults t ds rs") simp_all
  have nt: "\<not> P t" and nts: "\<forall>t\<in>set ts. \<not> P t"
    using Cons.prems(2) by simp_all
  have ih: "length (filter (\<lambda>d. name d = n) ds) * length (filter (\<lambda>t. name t = n) ts)
         \<le> length (filter P rs')"
    using Cons.IH[OF ml nts] nt by simp
  note cnt = remove_defaults_count[OF rd assms(2,3)]
  show ?case
  proof (cases "name t = n")
    case True
    with ih cnt show ?thesis by simp
  next
    case False
    with ih cnt show ?thesis by simp
  qed
qed

text \<open>
  C10.  When the defaults contain a requirement named \<open>n\<close>, the overrides contain two or
  more requirements named \<open>n\<close>, and no override named \<open>n\<close> is equal to a default, the
  merge raises \<^verbatim>\<open>ValueError\<close>: the later override finds nothing left to remove.
\<close>

theorem merge_resources_duplicate_override_raises:
  assumes d: "d \<in> set default_resources" "name d = n"
    and two: "2 \<le> length (filter (\<lambda>t. name t = n) task_resources)"
    and differ: "\<forall>t\<in>set task_resources. name t = n \<longrightarrow> t \<notin> set default_resources"
  shows "merge_resources default_resources task_resources = Inl ValueError"
proof (cases "merge_resources default_resources task_resources")
  case (Inl e)
  then have "e = ValueError"
    unfolding merge_resources_def by (rule merge_loop_error)
  with Inl show ?thesis by simp
next
  case (Inr r)
  define P where "P = (\<lambda>x. x \<in> set default_resources \<and> name x = n)"
  let ?k = "length (filter (\<lambda>d. name d = n) default_resources)"
  let ?m = "length (filter (\<lambda>t. name t = n) task_resources)"
  have run: "merge_loop default_resources task_resources default_resources = Inr r"
    using Inr by (simp add: merge_resources_def)
  have p1: "\<forall>d\<in>set default_resources. name d = n \<longrightarrow> P d"
    by (simp add: P_def)
  have p2: "\<forall>x. P x \<longrightarrow> name x = n"
    by (simp add: P_def)
  have p3: "\<forall>t\<in>set task_resources. \<not> P t"
    using differ by (auto simp: P_def)
  have le: "?k * ?m \<le> length (filter P default_resources)"
    by (rule merge_loop_count[OF run p1 p2 p3])
  have "filter P default_resources = filter (\<lambda>d. name d = n) default_resources"
    by (rule filter_cong) (simp_all add: P_def)
  with le have le': "?k * ?m \<le> ?k" by simp
  have "filter (\<lambda>d. name d = n) default_resources \<noteq> []"
    using d by (auto simp: filter_empty_conv)
  then have pos: "0 < ?k" by simp
  have "?k * 2 \<le> ?k * ?m"
    using two by (rule mult_le_mono2)
  with le' pos have False by linarith
  then show ?thesis ..
qed

theorem merge_resources_duplicate_override_raises_witness:
  "merge_resources [MesosScalarResource ''cpus'' 0.1, MesosScalarResource ''mem'' 64]
     [MesosScalarResource ''mem'' 128, MesosScalarResource ''mem'' 256] = Inl ValueError"
  using merge_resources_duplicate_override_raises
    [of "MesosScalarResource ''mem'' 64"
        "[MesosScalarResource ''cpus'' 0.1, MesosScalarResource ''mem'' 64]" "''mem''"
        "[MesosScalarResource ''mem'' 128, MesosScalarResource ''mem'' 256]"]
  by simp

section \<open>Properties of status updates and reconciliation\<close>

lemma dict_pop_update:
  "dict_pop k (AList.update k v d) = Inr (AList.delete k d)"
  by (simp add: dict_pop_def update_conv' delete_update_same)

text \<open>
  C3.  A status update whose task id is tracked never raises.  The success status puts
  exactly one success result on the result queue and removes the tracking entry; each
  of the statuses failed, killed, error and lost puts exactly one failure result there
  and removes the entry; any other status puts nothing on the queue and is stored as the
  last status of the entry.  No other entry of the tracking dictionary changes.  When a
  terminal status is delivered again after its entry was removed, the state stays as it
  is: no second result is emitted.
\<close>

theorem statusUpdate_tracked:
  assumes "map_of (mesos_task_to_airflow_task s) (st_task_id st) = Some d"
  shows "\<exists>s'. statusUpdate s st = Inr s'
     \<and> scheduler_results s' = scheduler_results s @
          (if st_state st = TASK_FINISHED then [(key d, SUCCESS)]
           else if st_state st \<in> {TASK_FAILED, TASK_KILLED, TASK_ERROR, TASK_LOST}
           then [(key d, FAILED)] else [])
     \<and> map_of (mesos_task_to_airflow_task s') =
          (if st_state st \<in> {TASK_FINISHED, TASK_FAILED, TASK_KILLED, TASK_ERROR, TASK_LOST}
           then (map_of (mesos_task_to_airflow_task s))(st_task_id st := None)
           else (map_of (mesos_task_to_airflow_task s))
                  (st_task_id st \<mapsto> \<lparr>key = key d, status = Some st\<rparr>))
     \<and> (st_state st \<in> {TASK_FINISHED, TASK_FAILED, TASK_KILLED, TASK_ERROR, TASK_LOST}
          \<longrightarrow> statusUpdate s' st = Inr s')"
  using assms
  by (auto simp: statusUpdate_def Let_def dict_pop_update put_result_def delete_conv' update_conv')

theorem statusUpdate_tracked_witness:
  "\<exists>s'. statusUpdate tracking_session (example_status example_task_id TASK_FINISHED) = Inr s'
     \<and> scheduler_results s' = [(example_key, SUCCESS)]
     \<and> map_of (mesos_task_to_airflow_task s') example_task_id = None
     \<and> statusUpdate s' (example_status example_task_id TASK_FINISHED) = Inr s'"
proof -
  have h: "map_of (mesos_task_to_airflow_task tracking_session)
             (st_task_id (example_status example_task_id TASK_FINISHED))
           = Some \<lparr>key = example_key, status = None\<rparr>"
    by (simp add: tracking_session_def example_status_def)
  have r: "scheduler_results tracking_session = []"
    by (simp add: tracking_session_def idle_session_def)
  have t: "st_state (example_status example_task_id TASK_FINISHED) = TASK_FINISHED"
     "st_task_id (example_status example_task_id TASK_FINISHED) = example_task_id"
    by (simp_all add: example_status_def)
  from statusUpdate_tracked [OF h] show ?thesis
    unfolding r t by auto
qed

text \<open>
  C4.  A status update whose task id is not a key of the tracking dictionary is discarded:
  the call returns without raising and the whole state, the result queue and the
  tracking dictionary included, is as before.
\<close>

theorem statusUpdate_unrecognised:
  assumes "map_of (mesos_task_to_airflow_task s) (st_task_id st) = None"
  shows "statusUpdate s st = Inr s"
  using assms by (simp add: statusUpdate_def)

theorem statusUpdate_unrecognised_witness:
  "statusUpdate tracking_session (example_status ''x-1'' TASK_FINISHED) = Inr tracking_session"
  using statusUpdate_unrecognised [of tracking_session "example_status ''x-1'' TASK_FINISHED"]
  by (simp add: tracking_session_def idle_session_def example_status_def example_task_id_def)

text \<open>
  C8, as the claim states it, fails: the snapshot does not cover every tracked task.  A
  task that was launched and has had no status update yet is tracked with the status
  \<^verbatim>\<open>None\<close>, and \<^verbatim>\<open>reconcile\<close> leaves it out (\<^verbatim>\<open>if task['status']\<close>); with such a
  task alone in the tracking dictionary the request is made with an empty snapshot.
\<close>

theorem reconcile_empty_snapshot_counterexample:
  "map_of (mesos_task_to_airflow_task tracking_session) example_task_id
     = Some \<lparr>key = example_key, status = None\<rparr>
   \<and> reconcile tracking_session = driver_request (ReconcileTasks []) tracking_session"
  by (simp add: reconcile_def tracking_session_def)

text \<open>
  C8, amended.  \<^verbatim>\<open>reconcile\<close> makes a reconciliation request exactly when the
  tracking dictionary is not empty; with an empty dictionary the state is unchanged.
  The snapshot it sends holds the last status of every tracked task that has had a
  status update, and nothing else; a tracked task that has had none is left out.
\<close>

theorem reconcile_request:
  "(mesos_task_to_airflow_task s = [] \<longrightarrow> reconcile s = s)
   \<and> (mesos_task_to_airflow_task s \<noteq> [] \<longrightarrow>
        (\<exists>snapshot. reconcile s = driver_request (ReconcileTasks snapshot) s
           \<and> (\<forall>tid d st. map_of (mesos_task_to_airflow_task s) tid = Some d \<and> status d = Some st
                 \<longrightarrow> st \<in> set snapshot)
           \<and> (\<forall>st\<in>set snapshot. \<exists>tid d. (tid, d) \<in> set (mesos_task_to_airflow_task s)
                 \<and> status d = Some st)))
   \<and> (driver_calls (reconcile s) \<noteq> driver_calls s \<longleftrightarrow> mesos_task_to_airflow_task s \<noteq> [])"
proof -
  define snap where "snap = map (\<lambda>task. the (status task))
     (filter (\<lambda>task. status task \<noteq> None) (map snd (mesos_task_to_airflow_task s)))"
  have run: "reconcile s =
      (if mesos_task_to_airflow_task s \<noteq> [] then driver_request (ReconcileTasks snap) s else s)"
    by (simp add: reconcile_def snap_def)
  have mem: "st \<in> set snap"
    if "map_of (mesos_task_to_airflow_task s) tid = Some d" "status d = Some st" for tid d st
  proof -
    from that(1) have "(tid, d) \<in> set (mesos_task_to_airflow_task s)" by (rule map_of_SomeD)
    then have "d \<in> set (filter (\<lambda>task. status task \<noteq> None) (map snd (mesos_task_to_airflow_task s)))"
      using that(2) by force
    then have "the (status d) \<in> set snap"
      unfolding snap_def by (metis (no_types, lifting) imageI set_map)
    then show ?thesis using that(2) by simp
  qed
  have orig: "\<exists>tid d. (tid, d) \<in> set (mesos_task_to_airflow_task s) \<and> status d = Some st"
    if "st \<in> set snap" for st
    using that unfolding snap_def by auto blast
  have first: "mesos_task_to_airflow_task s = [] \<longrightarrow> reconcile s = s"
    by (simp add: run)
  have second: "mesos_task_to_airflow_task s \<noteq> [] \<longrightarrow>
        (\<exists>snapshot. reconcile s = driver_request (ReconcileTasks snapshot) s
           \<and> (\<forall>tid d st. map_of (mesos_task_to_airflow_task s) tid = Some d \<and> status d = Some st
                 \<longrightarrow> st \<in> set snapshot)
           \<and> (\<forall>st\<in>set snapshot. \<exists>tid d. (tid, d) \<in> set (mesos_task_to_airflow_task s)
                 \<and> status d = Some st))"
  proof
    assume "mesos_task_to_airflow_task s \<noteq> []"
    then have "reconcile s = driver_request (ReconcileTasks snap) s" by (simp add: run)
    moreover have "\<forall>tid d st. map_of (mesos_task_to_airflow_task s) tid = Some d \<and> status d = Some st
                 \<longrightarrow> st \<in> set snap"
      using mem by blast
    moreover have "\<forall>st\<in>set snap. \<exists>tid d. (tid, d) \<in> set (mesos_task_to_airflow_task s)
                 \<and> status d = Some st"
      using orig by blast
    ultimately show "\<exists>snapshot. reconcile s = driver_request (ReconcileTasks snapshot) s
           \<and> (\<forall>tid d st. map_of (mesos_task_to_airflow_task s) tid = Some d \<and> status d = Some st
                 \<longrightarrow> st \<in> set snapshot)
           \<and> (\<forall>st\<in>set snapshot. \<exists>tid d. (tid, d) \<in> set (mesos_task_to_airflow_task s)
                 \<and> status d = Some st)"
      by blast
  qed
  have third: "driver_calls (reconcile s) \<noteq> driver_calls s \<longleftrightarrow> mesos_task_to_airflow_task s \<noteq> []"
    by (simp add: run driver_request_def)
  from first second third show ?thesis by blast
qed

theorem reconcile_request_witness:
  "reconcile idle_session = idle_session
   \<and> (\<exists>snapshot. reconcile reporting_session
          = driver_request (ReconcileTasks snapshot) reporting_session
        \<and> example_status other_task_id TASK_RUNNING \<in> set snapshot)"
proof -
  have h1: "mesos_task_to_airflow_task idle_session = []"
    by (simp add: idle_session_def)
  have h2: "mesos_task_to_airflow_task reporting_session \<noteq> []"
    by (simp add: reporting_session_def)
  have h3: "map_of (mesos_task_to_airflow_task reporting_session) other_task_id
      = Some \<lparr>key = (''dag'', ''other'', ''20200101000000000000''),
              status = Some (example_status other_task_id TASK_RUNNING)\<rparr>"
    by (simp add: reporting_session_def other_task_id_def example_task_id_def)
  have h4: "status \<lparr>key = (''dag'', ''other'', ''20200101000000000000''),
              status = Some (example_status other_task_id TASK_RUNNING)\<rparr>
      = Some (example_status other_task_id TASK_RUNNING)"
    by simp
  from reconcile_request [of idle_session] h1
  have first: "reconcile idle_session = idle_session" by blast
  from reconcile_request [of reporting_session] h2 obtain snapshot where
    r: "reconcile reporting_session = driver_request (ReconcileTasks snapshot) reporting_session"
    and m: "\<forall>tid d st. map_of (mesos_task_to_airflow_task reporting_session) tid = Some d
              \<and> status d = Some st \<longrightarrow> st \<in> set snapshot"
    by blast
  from m h3 h4 have "example_status other_task_id TASK_RUNNING \<in> set snapshot"
    by blast
  with r first show ?thesis by blast
qed

section \<open>Properties of the suppression control\<close>

text \<open>
  C9.  With an empty queue and offers not suppressed, one evaluation sets the flag and
  makes one suppression request; with a non-empty queue and offers suppressed, one
  evaluation clears the flag and makes one revival request; in the two other states it
  changes nothing.  Evaluating again any number of times, with the queue as it was,
  gives the state of the first evaluation: no further request is made.
\<close>

theorem mesos_suppress_revive_idempotent:
  "(scheduler_tasks s = [] \<and> \<not> suppressed s \<longrightarrow>
      mesos_suppress_revive s = driver_request SuppressOffers (s\<lparr>suppressed := True\<rparr>))
   \<and> (scheduler_tasks s \<noteq> [] \<and> suppressed s \<longrightarrow>
      mesos_suppress_revive s = driver_request ReviveOffers (s\<lparr>suppressed := False\<rparr>))
   \<and> ((scheduler_tasks s = [] \<longleftrightarrow> suppressed s) \<longrightarrow> mesos_suppress_revive s = s)
   \<and> (mesos_suppress_revive ^^ Suc n) s = mesos_suppress_revive s"
proof -
  have idem: "mesos_suppress_revive (mesos_suppress_revive t) = mesos_suppress_revive t" for t
    by (simp add: mesos_suppress_revive_def driver_request_def Let_def)
  have "(mesos_suppress_revive ^^ Suc n) s = mesos_suppress_revive s"
    by (induction n) (simp_all add: idem)
  then show ?thesis
    by (simp add: mesos_suppress_revive_def driver_request_def Let_def)
qed

theorem mesos_suppress_revive_idempotent_witness:
  "mesos_suppress_revive idle_session
     = driver_request SuppressOffers (idle_session\<lparr>suppressed := True\<rparr>)
   \<and> (mesos_suppress_revive ^^ Suc 1) idle_session = mesos_suppress_revive idle_session"
proof -
  have h: "scheduler_tasks idle_session = [] \<and> \<not> suppressed idle_session"
    by (simp add: idle_session_def)
  from mesos_suppress_revive_idempotent [of idle_session 1] h
  show ?thesis by blast
qed

section \<open>Properties of a round of offers\<close>

lemma find_offer_loop_first:
  "\<forall>p\<in>set pre. offer_filter_check fs p = Inr False \<Longrightarrow> offer_filter_check fs off = Inr True
   \<Longrightarrow> find_offer_loop fs (pre @ off # post) = Inr (Some off)"
  by (induction pre) simp_all

lemma find_offer_loop_none:
  "\<forall>p\<in>set offs. offer_filter_check fs p = Inr False \<Longrightarrow> find_offer_loop fs offs = Inr None"
  by (induction offs) simp_all

lemma list_remove_first:
  "off \<notin> set pre \<Longrightarrow> list_remove off (pre @ off # post) = Inr (pre @ post)"
  by (induction pre) auto

lemma pending_head:
  assumes "pending s = item # waiting"
  shows "(if current_task s = None then queue_get s else s)
         = s\<lparr>current_task := Some item, scheduler_tasks := waiting\<rparr>"
    and "\<not> (scheduler_tasks s = [] \<and> current_task s = None)"
  using assms by (cases "current_task s"; cases "scheduler_tasks s"; simp add: pending_def queue_get_def)+

lemma match_loop_no_match:
  assumes p: "pending s = item # waiting"
    and n: "get_operator_mesos_resources dr item = Inr needed"
    and ne: "avail \<noteq> []"
    and rej: "\<forall>p\<in>set avail. offer_filter_check (map to_filter needed) p = Inr False"
  shows "match_loop dbl dr s avail = (s\<lparr>current_task := Some item, scheduler_tasks := waiting\<rparr>, Inr avail)"
proof -
  let ?cur = "s\<lparr>current_task := Some item, scheduler_tasks := waiting\<rparr>"
  have l: "launch_current_task dbl dr ?cur avail = (?cur, Inr None)"
    by (simp add: launch_current_task_def n find_offer_def find_offer_loop_none[OF rej])
  show ?thesis
    by (subst match_loop.simps) (simp add: pending_head[OF p] ne l)
qed

lemma match_loop_match:
  assumes p: "pending s = item # waiting"
    and n: "get_operator_mesos_resources dr item = Inr needed"
    and av: "avail = pre @ off # post"
    and rej: "\<forall>p\<in>set pre. offer_filter_check (map to_filter needed) p = Inr False"
    and acc: "offer_filter_check (map to_filter needed) off = Inr True"
  shows "\<exists>s1 task. match_loop dbl dr s avail = match_loop dbl dr s1 (pre @ post)
           \<and> pending s1 = waiting
           \<and> driver_calls s1 = driver_calls s @ [LaunchTasks [offer_id off] [task]]
           \<and> ti_command task = wi_command item
           \<and> ti_slave_id task = slave_id off
           \<and> map_of (mesos_task_to_airflow_task s1) (ti_task_id task)
               = Some \<lparr>key = wi_key item, status = None\<rparr>
           \<and> scheduler_results s1 = scheduler_results s"
proof -
  let ?cur = "s\<lparr>current_task := Some item, scheduler_tasks := waiting\<rparr>"
  obtain sb task where b: "build_task_info dbl ?cur (wi_key item) (wi_command item) needed off = (sb, task)"
    by force
  then have sb: "sb = ?cur\<lparr>task_counter := task_counter s + 1\<rparr>"
    and tc: "ti_command task = wi_command item" "ti_slave_id task = slave_id off"
    by (auto simp: build_task_info_def Let_def)
  let ?launched = "(driver_request (LaunchTasks [offer_id off] [task]) sb)
      \<lparr>mesos_task_to_airflow_task :=
         AList.update (ti_task_id task) \<lparr>key = wi_key item, status = None\<rparr>
           (mesos_task_to_airflow_task (driver_request (LaunchTasks [offer_id off] [task]) sb))\<rparr>"
  have f: "find_offer avail needed = Inr (Some off)"
    unfolding find_offer_def av by (rule find_offer_loop_first[OF rej acc])
  have l: "launch_current_task dbl dr ?cur avail = (?launched, Inr (Some off))"
    by (simp add: launch_current_task_def n f b Let_def)
  have "off \<notin> set pre" using rej acc by auto
  then have r: "list_remove off avail = Inr (pre @ post)"
    unfolding av by (rule list_remove_first)
  have m: "match_loop dbl dr s avail = match_loop dbl dr (?launched\<lparr>current_task := None\<rparr>) (pre @ post)"
  proof -
    have ne: "avail \<noteq> []" using av by simp
    show ?thesis
      by (subst match_loop.simps) (simp add: pending_head[OF p] ne l r)
  qed
  show ?thesis
    by (rule exI[of _ "?launched\<lparr>current_task := None\<rparr>"], rule exI[of _ task])
       (simp add: m sb tc pending_def driver_request_def update_conv')
qed

lemma find_offer_loop_SomeD:
  "find_offer_loop fs offs = Inr (Some off) \<Longrightarrow>
   \<exists>pre post. offs = pre @ off # post \<and> (\<forall>p\<in>set pre. offer_filter_check fs p = Inr False)
      \<and> offer_filter_check fs off = Inr True"
proof (induction offs)
  case Nil
  then show ?case by simp
next
  case (Cons a offs)
  show ?case
  proof (cases "offer_filter_check fs a")
    case (Inl e)
    with Cons.prems show ?thesis by simp
  next
    case (Inr b)
    show ?thesis
    proof (cases b)
      case True
      with Inr Cons.prems have "a = off" by simp
      with Inr True have "a # offs = [] @ off # offs \<and> (\<forall>p\<in>set []. offer_filter_check fs p = Inr False)
          \<and> offer_filter_check fs off = Inr True" by simp
      then show ?thesis by blast
    next
      case False
      with Inr Cons.prems have "find_offer_loop fs offs = Inr (Some off)" by simp
      from Cons.IH[OF this] obtain pre post where
        "offs = pre @ off # post" "\<forall>p\<in>set pre. offer_filter_check fs p = Inr False"
        "offer_filter_check fs off = Inr True" by blast
      with Inr False have "a # offs = (a # pre) @ off # post
          \<and> (\<forall>p\<in>set (a # pre). offer_filter_check fs p = Inr False)
          \<and> offer_filter_check fs off = Inr True" by simp
      then show ?thesis by blast
    qed
  qed
qed

lemma find_offer_loop_NoneD:
  "find_offer_loop fs offs = Inr None \<Longrightarrow> \<forall>p\<in>set offs. offer_filter_check fs p = Inr False"
  by (induction offs) (auto split: sum.splits if_splits)

lemma match_loop_idle:
  "pending s = [] \<or> offers = [] \<Longrightarrow> match_loop dbl dr s offers = (s, Inr offers)"
  by (subst match_loop.simps) (auto simp: pending_def split: option.splits)

lemma match_loop_resolve_error:
  assumes p: "pending s = item # waiting" and ne: "offers \<noteq> []"
    and n: "get_operator_mesos_resources dr item = Inl e"
  shows "match_loop dbl dr s offers = (s\<lparr>current_task := Some item, scheduler_tasks := waiting\<rparr>, Inl e)"
proof -
  let ?cur = "s\<lparr>current_task := Some item, scheduler_tasks := waiting\<rparr>"
  have l: "launch_current_task dbl dr ?cur offers = (?cur, Inl e)"
    by (simp add: launch_current_task_def n)
  show ?thesis
    by (subst match_loop.simps) (simp add: pending_head[OF p] ne l)
qed

lemma match_loop_filter_error:
  assumes p: "pending s = item # waiting" and ne: "offers \<noteq> []"
    and n: "get_operator_mesos_resources dr item = Inr needed"
    and f: "find_offer offers needed = Inl e"
  shows "match_loop dbl dr s offers = (s\<lparr>current_task := Some item, scheduler_tasks := waiting\<rparr>, Inl e)"
proof -
  let ?cur = "s\<lparr>current_task := Some item, scheduler_tasks := waiting\<rparr>"
  have l: "launch_current_task dbl dr ?cur offers = (?cur, Inl e)"
    by (simp add: launch_current_task_def n f)
  show ?thesis
    by (subst match_loop.simps) (simp add: pending_head[OF p] ne l)
qed

lemma pending_current:
  "pending (s\<lparr>current_task := Some item, scheduler_tasks := waiting\<rparr>) = item # waiting"
  by (simp add: pending_def)

lemma round_ok_nil_Inl:
  "pending s' = pending s \<Longrightarrow> driver_calls s' = driver_calls s \<Longrightarrow> round_ok dr s offers s' (Inl e) []"
  by (simp add: round_ok_def)

lemma round_ok_step:
  assumes r: "round_ok dr s1 (pre @ post) s' res used"
    and p: "pending s = item # pending s1"
    and c: "driver_calls s1 = driver_calls s @ [launch_call (item, off, task)]"
  shows "round_ok dr s (pre @ off # post) s' res ((item, off, task) # used)"
  using r unfolding round_ok_def
  by (cases res) (simp_all add: p c)

lemma match_loop_run:
  "match_loop dbl dr s offers = (s', res) \<Longrightarrow> \<exists>used. round_ok dr s offers s' res used"
proof (induction "length offers" arbitrary: s offers rule: less_induct)
  case less
  show ?case
  proof (cases "pending s = [] \<or> offers = []")
    case True
    from match_loop_idle[OF True] less.prems have e: "s' = s" "res = Inr offers" by simp_all
    have "round_ok dr s offers s' res []"
      using True by (auto simp: round_ok_def e)
    then show ?thesis ..
  next
    case False
    then obtain item waiting where p: "pending s = item # waiting" and ne: "offers \<noteq> []"
      by (cases "pending s") auto
    let ?cur = "s\<lparr>current_task := Some item, scheduler_tasks := waiting\<rparr>"
    have p0: "pending ?cur = pending s" "driver_calls ?cur = driver_calls s"
      by (simp_all add: p pending_current)
    show ?thesis
    proof (cases "get_operator_mesos_resources dr item")
      case (Inl e)
      from match_loop_resolve_error[OF p ne Inl] less.prems
      have e: "s' = ?cur" "res = Inl e" by simp_all
      have "round_ok dr s offers s' res []"
        unfolding e by (rule round_ok_nil_Inl[OF p0])
      then show ?thesis ..
    next
      case (Inr needed)
      show ?thesis
      proof (cases "find_offer offers needed")
        case (Inl e)
        from match_loop_filter_error[OF p ne Inr Inl] less.prems
        have e: "s' = ?cur" "res = Inl e" by simp_all
        have "round_ok dr s offers s' res []"
          unfolding e by (rule round_ok_nil_Inl[OF p0])
        then show ?thesis ..
      next
        case found: (Inr r)
        show ?thesis
        proof (cases r)
          case None
          with found have "find_offer_loop (map to_filter needed) offers = Inr None"
            by (simp add: find_offer_def)
          then have rej: "\<forall>p\<in>set offers. offer_filter_check (map to_filter needed) p = Inr False"
            by (rule find_offer_loop_NoneD)
          from match_loop_no_match[OF p Inr ne rej] less.prems
          have e: "s' = ?cur" "res = Inr offers" by simp_all
          have u: "unmatched dr ?cur offers"
            unfolding unmatched_def using Inr rej by auto
          have "round_ok dr s offers s' res []"
            unfolding e round_ok_def using p0 u by simp
          then show ?thesis ..
        next
          case (Some off)
          with found have "find_offer_loop (map to_filter needed) offers = Inr (Some off)"
            by (simp add: find_offer_def)
          from find_offer_loop_SomeD[OF this] obtain pre post where
            av: "offers = pre @ off # post"
            and rej: "\<forall>p\<in>set pre. offer_filter_check (map to_filter needed) p = Inr False"
            and acc: "offer_filter_check (map to_filter needed) off = Inr True"
            by blast
          from match_loop_match[OF p Inr av rej acc] obtain s1 task where
            m: "match_loop dbl dr s offers = match_loop dbl dr s1 (pre @ post)"
            and p1: "pending s1 = waiting"
            and c1: "driver_calls s1 = driver_calls s @ [LaunchTasks [offer_id off] [task]]"
            by blast
          have "length (pre @ post) < length offers" by (simp add: av)
          moreover have "match_loop dbl dr s1 (pre @ post) = (s', res)"
            using m less.prems by simp
          ultimately obtain used where r: "round_ok dr s1 (pre @ post) s' res used"
            using less.hyps by blast
          have p': "pending s = item # pending s1" by (simp add: p p1)
          have c': "driver_calls s1 = driver_calls s @ [launch_call (item, off, task)]"
            by (simp add: c1 launch_call_def)
          have "round_ok dr s offers s' res ((item, off, task) # used)"
            unfolding av by (rule round_ok_step[OF r p' c'])
          then show ?thesis ..
        qed
      qed
    qed
  qed
qed

lemma resourceOffers_Inr:
  "match_loop dbl dr s offers = (s', Inr rest) \<Longrightarrow>
   resourceOffers dbl dr s offers = driver_request (LaunchTasks (map offer_id rest) []) s'"
  by (simp add: resourceOffers_def)

lemma resourceOffers_Inl:
  "match_loop dbl dr s offers = (s', Inl e) \<Longrightarrow>
   resourceOffers dbl dr s offers = driver_request (LaunchTasks (map offer_id offers) []) s'"
  by (simp add: resourceOffers_def)

text \<open>
  C1.  Three facts about the matching loop.  First, for every run that ends without an
  exception: the items launched, in the order of their launches, followed by the work
  still waiting are the work that waited at the start, so items are attempted in FIFO
  order and none is skipped; and when the loop ends with offers left and work waiting,
  it is because no offer left satisfies the current item, which stays the current item
  after the round, with the queue behind it untouched.  Second, when the pool is
  \<open>pre @ off # post\<close>, the filter of the first waiting item rejects every offer of
  \<open>pre\<close> and accepts \<open>off\<close>, the item is launched on \<open>off\<close>, the first acceptable offer
  in delivery order, and the loop goes on with the next item and the pool \<open>pre @ post\<close>.
  Third, when the filter of the first waiting item rejects every offer of a non-empty
  pool, the loop stops at once: that item is the current item, the queue holds the items
  behind it, no request was made and the pool is as delivered.
\<close>

theorem offer_matching_fifo_head_of_line:
  "(match_loop dbl dr s offers = (s', Inr rest) \<longrightarrow>
      (\<exists>used. pending s = map fst used @ pending s'
         \<and> driver_calls s' = driver_calls s @ map launch_call used
         \<and> (rest \<noteq> [] \<and> pending s' \<noteq> [] \<longrightarrow>
              unmatched dr s' rest
              \<and> current_task (resourceOffers dbl dr s offers) = current_task s'
              \<and> scheduler_tasks (resourceOffers dbl dr s offers) = scheduler_tasks s')))
   \<and> (pending s = item # waiting \<and> get_operator_mesos_resources dr item = Inr needed
        \<and> offers = pre @ off # post
        \<and> (\<forall>p\<in>set pre. offer_filter_check (map to_filter needed) p = Inr False)
        \<and> offer_filter_check (map to_filter needed) off = Inr True \<longrightarrow>
      (\<exists>s1 task. match_loop dbl dr s offers = match_loop dbl dr s1 (pre @ post)
         \<and> pending s1 = waiting
         \<and> driver_calls s1 = driver_calls s @ [launch_call (item, off, task)]
         \<and> ti_command task = wi_command item))
   \<and> (pending s = item # waiting \<and> get_operator_mesos_resources dr item = Inr needed
        \<and> offers \<noteq> []
        \<and> (\<forall>p\<in>set offers. offer_filter_check (map to_filter needed) p = Inr False) \<longrightarrow>
      match_loop dbl dr s offers
        = (s\<lparr>current_task := Some item, scheduler_tasks := waiting\<rparr>, Inr offers))"
proof (intro conjI impI)
  assume run: "match_loop dbl dr s offers = (s', Inr rest)"
  from match_loop_run[OF run] obtain used where r: "round_ok dr s offers s' (Inr rest) used" ..
  have ro: "resourceOffers dbl dr s offers = driver_request (LaunchTasks (map offer_id rest) []) s'"
    by (rule resourceOffers_Inr[OF run])
  have "pending s = map fst used @ pending s'
         \<and> driver_calls s' = driver_calls s @ map launch_call used
         \<and> (rest \<noteq> [] \<and> pending s' \<noteq> [] \<longrightarrow>
              unmatched dr s' rest
              \<and> current_task (resourceOffers dbl dr s offers) = current_task s'
              \<and> scheduler_tasks (resourceOffers dbl dr s offers) = scheduler_tasks s')"
    using r by (simp add: round_ok_def ro driver_request_def)
  then show "\<exists>used. pending s = map fst used @ pending s'
         \<and> driver_calls s' = driver_calls s @ map launch_call used
         \<and> (rest \<noteq> [] \<and> pending s' \<noteq> [] \<longrightarrow>
              unmatched dr s' rest
              \<and> current_task (resourceOffers dbl dr s offers) = current_task s'
              \<and> scheduler_tasks (resourceOffers dbl dr s offers) = scheduler_tasks s')" ..
next
  assume a: "pending s = item # waiting \<and> get_operator_mesos_resources dr item = Inr needed
        \<and> offers = pre @ off # post
        \<and> (\<forall>p\<in>set pre. offer_filter_check (map to_filter needed) p = Inr False)
        \<and> offer_filter_check (map to_filter needed) off = Inr True"
  then have p: "pending s = item # waiting" and n: "get_operator_mesos_resources dr item = Inr needed"
    and av: "offers = pre @ off # post"
    and rej: "\<forall>p\<in>set pre. offer_filter_check (map to_filter needed) p = Inr False"
    and acc: "offer_filter_check (map to_filter needed) off = Inr True"
    by simp_all
  from match_loop_match[OF p n av rej acc] obtain s1 task where
    "match_loop dbl dr s offers = match_loop dbl dr s1 (pre @ post)" "pending s1 = waiting"
    "driver_calls s1 = driver_calls s @ [LaunchTasks [offer_id off] [task]]"
    "ti_command task = wi_command item"
    by blast
  then have "match_loop dbl dr s offers = match_loop dbl dr s1 (pre @ post)
         \<and> pending s1 = waiting
         \<and> driver_calls s1 = driver_calls s @ [launch_call (item, off, task)]
         \<and> ti_command task = wi_command item"
    by (simp add: launch_call_def)
  then show "\<exists>s1 task. match_loop dbl dr s offers = match_loop dbl dr s1 (pre @ post)
         \<and> pending s1 = waiting
         \<and> driver_calls s1 = driver_calls s @ [launch_call (item, off, task)]
         \<and> ti_command task = wi_command item"
    by blast
next
  assume a: "pending s = item # waiting \<and> get_operator_mesos_resources dr item = Inr needed
        \<and> offers \<noteq> []
        \<and> (\<forall>p\<in>set offers. offer_filter_check (map to_filter needed) p = Inr False)"
  then have p: "pending s = item # waiting" and n: "get_operator_mesos_resources dr item = Inr needed"
    and ne: "offers \<noteq> []"
    and rej: "\<forall>p\<in>set offers. offer_filter_check (map to_filter needed) p = Inr False"
    by simp_all
  show "match_loop dbl dr s offers
        = (s\<lparr>current_task := Some item, scheduler_tasks := waiting\<rparr>, Inr offers)"
    by (rule match_loop_no_match[OF p n ne rej])
qed

lemma find_offer_loop_raises:
  "\<forall>p\<in>set pre. offer_filter_check fs p = Inr False \<Longrightarrow> offer_filter_check fs bad = Inl e
   \<Longrightarrow> find_offer_loop fs (pre @ bad # post) = Inl e"
  by (induction pre) simp_all

lemma launch_current_task_raises:
  assumes "matching_raises dr item pool e"
  shows "launch_current_task dbl dr (s\<lparr>current_task := Some item, scheduler_tasks := waiting\<rparr>) pool
         = (s\<lparr>current_task := Some item, scheduler_tasks := waiting\<rparr>, Inl e)"
proof (cases "get_operator_mesos_resources dr item")
  case (Inl e')
  with assms have "e' = e" by (auto simp: matching_raises_def)
  with Inl show ?thesis by (simp add: launch_current_task_def)
next
  case (Inr needed)
  with assms obtain pre bad post where "pool = pre @ bad # post"
    "\<forall>p\<in>set pre. offer_filter_check (map to_filter needed) p = Inr False"
    "offer_filter_check (map to_filter needed) bad = Inl e"
    by (auto simp: matching_raises_def)
  then have "find_offer pool needed = Inl e"
    by (simp add: find_offer_def find_offer_loop_raises)
  with Inr show ?thesis by (simp add: launch_current_task_def)
qed

lemma list_remove_nonempty: "list_remove x xs = Inr ys \<Longrightarrow> xs \<noteq> []"
  by (cases xs) simp_all

lemma launches_match_loop:
  "launches dbl dr s offers s1 pool \<Longrightarrow> match_loop dbl dr s offers = match_loop dbl dr s1 pool"
proof (induction rule: launches.induct)
  case launches_none
  show ?case ..
next
  case (launches_one s1 pool item waiting s2 off pool')
  have ne: "pool \<noteq> []"
    using launches_one.hyps(4) by (rule list_remove_nonempty)
  have "match_loop dbl dr s1 pool = match_loop dbl dr (s2\<lparr>current_task := None\<rparr>) pool'"
    by (subst match_loop.simps)
       (simp add: pending_head[OF launches_one.hyps(2)] ne launches_one.hyps(3,4))
  with launches_one.IH show ?case by simp
qed

lemma match_loop_raises:
  assumes p: "pending s1 = item # waiting" and ne: "pool \<noteq> []"
    and r: "matching_raises dr item pool e"
  shows "match_loop dbl dr s1 pool
         = (s1\<lparr>current_task := Some item, scheduler_tasks := waiting\<rparr>, Inl e)"
  by (subst match_loop.simps)
     (simp add: pending_head[OF p] ne launch_current_task_raises[OF r])

text \<open>
  C2.  When the loop ends without an exception, \<^verbatim>\<open>resourceOffers\<close> releases exactly
  the offers left in the pool by a launch with no tasks; every launch made in the round
  names one offer and one task, there are as many launches as items taken from the
  waiting work, the offers used for launches together with the offers released are the
  offers delivered, and an end with offers left and work waiting means that no offer
  left satisfies the current item.  When the loop ends with an exception,
  \<^verbatim>\<open>resourceOffers\<close> still returns a state (the exception does not propagate) and
  releases every offer of the batch as delivered.  And the loop does end with the
  exception whenever one is raised: if, after any number of launches in the round,
  resolving the requirements of the first waiting item raises, or its filter raises on
  an offer of the pool before it accepts one, then the loop ends with that exception,
  with that item as the current item, and \<^verbatim>\<open>resourceOffers\<close> releases every offer of
  the batch as delivered, those used for launches included.
\<close>

theorem resourceOffers_releases_offers:
  "(match_loop dbl dr s offers = (s', Inr rest) \<longrightarrow>
      resourceOffers dbl dr s offers = driver_request (LaunchTasks (map offer_id rest) []) s'
      \<and> (\<exists>used. driver_calls s' = driver_calls s @ map launch_call used
             \<and> length (pending s) = length used + length (pending s')
             \<and> mset (map (fst \<circ> snd) used) + mset rest = mset offers)
      \<and> (rest \<noteq> [] \<and> pending s' \<noteq> [] \<longrightarrow> unmatched dr s' rest))
   \<and> (match_loop dbl dr s offers = (s', Inl e) \<longrightarrow>
      resourceOffers dbl dr s offers = driver_request (LaunchTasks (map offer_id offers) []) s')
   \<and> (launches dbl dr s offers s1 pool \<and> pending s1 = item # waiting \<and> pool \<noteq> []
        \<and> matching_raises dr item pool e' \<longrightarrow>
      match_loop dbl dr s offers
        = (s1\<lparr>current_task := Some item, scheduler_tasks := waiting\<rparr>, Inl e')
      \<and> resourceOffers dbl dr s offers
        = driver_request (LaunchTasks (map offer_id offers) [])
            (s1\<lparr>current_task := Some item, scheduler_tasks := waiting\<rparr>))"
proof (intro conjI impI)
  assume run: "match_loop dbl dr s offers = (s', Inr rest)"
  then show "resourceOffers dbl dr s offers = driver_request (LaunchTasks (map offer_id rest) []) s'"
    by (rule resourceOffers_Inr)
  from match_loop_run[OF run] obtain used where r: "round_ok dr s offers s' (Inr rest) used" ..
  then have "length (pending s) = length (map fst used @ pending s')"
    by (simp add: round_ok_def)
  then have "driver_calls s' = driver_calls s @ map launch_call used
             \<and> length (pending s) = length used + length (pending s')
             \<and> mset (map (fst \<circ> snd) used) + mset rest = mset offers"
    using r by (simp add: round_ok_def)
  then show "\<exists>used. driver_calls s' = driver_calls s @ map launch_call used
             \<and> length (pending s) = length used + length (pending s')
             \<and> mset (map (fst \<circ> snd) used) + mset rest = mset offers" ..
  show "unmatched dr s' rest" if "rest \<noteq> [] \<and> pending s' \<noteq> []"
    using r that by (simp add: round_ok_def)
next
  assume "match_loop dbl dr s offers = (s', Inl e)"
  then show "resourceOffers dbl dr s offers = driver_request (LaunchTasks (map offer_id offers) []) s'"
    by (rule resourceOffers_Inl)
next
  assume a: "launches dbl dr s offers s1 pool \<and> pending s1 = item # waiting \<and> pool \<noteq> []
        \<and> matching_raises dr item pool e'"
  then have l: "launches dbl dr s offers s1 pool" and p: "pending s1 = item # waiting"
    and ne: "pool \<noteq> []" and r: "matching_raises dr item pool e'"
    by simp_all
  show run: "match_loop dbl dr s offers
        = (s1\<lparr>current_task := Some item, scheduler_tasks := waiting\<rparr>, Inl e')"
    using launches_match_loop[OF l] match_loop_raises[OF p ne r] by simp
  show "resourceOffers dbl dr s offers
        = driver_request (LaunchTasks (map offer_id offers) [])
            (s1\<lparr>current_task := Some item, scheduler_tasks := waiting\<rparr>)"
    by (rule resourceOffers_Inl[OF run])
qed

lemma cpus_offer_check:
  "resource_filter_check ''cpus'' v INCLUDE (cpus_offer oid w) = Inr (v \<le> w)"
  by (simp add: cpus_offer_def resource_filter_check_def get_resource_def found_def
        check_scalar_def)

lemma example_item_resources:
  "get_operator_mesos_resources [] (example_item tid v) = Inr [MesosScalarResource ''cpus'' v]"
  by (simp add: get_operator_mesos_resources_def example_item_def merge_resources_def)

lemma queued_session_pending: "pending (queued_session (item # items)) = item # items"
  by (simp add: pending_def queued_session_def idle_session_def)

theorem offer_matching_fifo_head_of_line_witness:
  "match_loop example_double [] (queued_session [example_item ''a'' 2, example_item ''b'' 1])
     [cpus_offer ''o1'' 1]
   = ((queued_session [example_item ''a'' 2, example_item ''b'' 1])
        \<lparr>current_task := Some (example_item ''a'' 2), scheduler_tasks := [example_item ''b'' 1]\<rparr>,
      Inr [cpus_offer ''o1'' 1])"
proof -
  have p: "pending (queued_session [example_item ''a'' 2, example_item ''b'' 1])
           = example_item ''a'' 2 # [example_item ''b'' 1]"
    by (rule queued_session_pending)
  have n: "get_operator_mesos_resources [] (example_item ''a'' 2)
           = Inr [MesosScalarResource ''cpus'' 2]"
    by (rule example_item_resources)
  have ne: "[cpus_offer ''o1'' 1] \<noteq> []" by simp
  have rej: "\<forall>p\<in>set [cpus_offer ''o1'' 1].
      offer_filter_check (map to_filter [MesosScalarResource ''cpus'' 2]) p = Inr False"
    by (simp add: cpus_offer_check)
  from offer_matching_fifo_head_of_line
    [where dbl = example_double and dr = "[]" and s = "queued_session [example_item ''a'' 2, example_item ''b'' 1]"
       and offers = "[cpus_offer ''o1'' 1]" and item = "example_item ''a'' 2"
       and waiting = "[example_item ''b'' 1]" and needed = "[MesosScalarResource ''cpus'' 2]"]
    p n ne rej
  show ?thesis by blast
qed

lemma launch_current_task_launches:
  assumes n: "get_operator_mesos_resources dr item = Inr needed"
    and f: "find_offer pool needed = Inr (Some off)"
  shows "\<exists>s2 task. launch_current_task dbl dr
            (s\<lparr>current_task := Some item, scheduler_tasks := waiting\<rparr>) pool
          = (s2, Inr (Some off))
       \<and> scheduler_tasks s2 = waiting
       \<and> driver_calls s2 = driver_calls s @ [LaunchTasks [offer_id off] [task]]"
proof -
  let ?cur = "s\<lparr>current_task := Some item, scheduler_tasks := waiting\<rparr>"
  obtain sb task where b: "build_task_info dbl ?cur (wi_key item) (wi_command item) needed off = (sb, task)"
    by force
  then have sb: "sb = ?cur\<lparr>task_counter := task_counter s + 1\<rparr>"
    by (auto simp: build_task_info_def Let_def)
  let ?launched = "(driver_request (LaunchTasks [offer_id off] [task]) sb)
      \<lparr>mesos_task_to_airflow_task :=
         AList.update (ti_task_id task) \<lparr>key = wi_key item, status = None\<rparr>
           (mesos_task_to_airflow_task (driver_request (LaunchTasks [offer_id off] [task]) sb))\<rparr>"
  have l: "launch_current_task dbl dr ?cur pool = (?launched, Inr (Some off))"
    by (simp add: launch_current_task_def n f b Let_def)
  have "launch_current_task dbl dr ?cur pool = (?launched, Inr (Some off))
       \<and> scheduler_tasks ?launched = waiting
       \<and> driver_calls ?launched = driver_calls s @ [LaunchTasks [offer_id off] [task]]"
    by (simp add: l sb driver_request_def)
  then show ?thesis by blast
qed

theorem resourceOffers_releases_offers_witness:
  "(\<exists>s'. match_loop example_double [] (queued_session [example_item ''a'' 1])
            [cpus_offer ''o1'' 0.5, cpus_offer ''o2'' 2, cpus_offer ''o3'' 4]
          = (s', Inr [cpus_offer ''o1'' 0.5, cpus_offer ''o3'' 4])
        \<and> resourceOffers example_double [] (queued_session [example_item ''a'' 1])
            [cpus_offer ''o1'' 0.5, cpus_offer ''o2'' 2, cpus_offer ''o3'' 4]
          = driver_request (LaunchTasks [''o1'', ''o3''] []) s')
   \<and> (\<exists>s1 task. driver_calls s1 = [LaunchTasks [''o2''] [task]]
        \<and> match_loop example_double []
            (queued_session [example_item ''a'' 1, example_item ''b'' 1])
            [cpus_offer ''o2'' 2, ambiguous_offer]
          = (s1\<lparr>current_task := Some (example_item ''b'' 1), scheduler_tasks := []\<rparr>,
             Inl AmbiguousResource)
        \<and> resourceOffers example_double []
            (queued_session [example_item ''a'' 1, example_item ''b'' 1])
            [cpus_offer ''o2'' 2, ambiguous_offer]
          = driver_request (LaunchTasks [''o2'', ''o9''] [])
              (s1\<lparr>current_task := Some (example_item ''b'' 1), scheduler_tasks := []\<rparr>))"
proof -
  let ?s = "queued_session [example_item ''a'' 1]"
  let ?offers = "[cpus_offer ''o1'' 0.5, cpus_offer ''o2'' 2, cpus_offer ''o3'' 4]"
  have p: "pending ?s = example_item ''a'' 1 # []"
    by (rule queued_session_pending)
  have n: "get_operator_mesos_resources [] (example_item ''a'' 1)
           = Inr [MesosScalarResource ''cpus'' 1]"
    by (rule example_item_resources)
  have av: "?offers = [cpus_offer ''o1'' 0.5] @ cpus_offer ''o2'' 2 # [cpus_offer ''o3'' 4]"
    by simp
  have rej: "\<forall>p\<in>set [cpus_offer ''o1'' 0.5].
      offer_filter_check (map to_filter [MesosScalarResource ''cpus'' 1]) p = Inr False"
    by (simp add: cpus_offer_check)
  have acc: "offer_filter_check (map to_filter [MesosScalarResource ''cpus'' 1])
      (cpus_offer ''o2'' 2) = Inr True"
    by (simp add: cpus_offer_check)
  from match_loop_match[OF p n av rej acc, where dbl = example_double] obtain s1 where
    m: "match_loop example_double [] ?s ?offers
        = match_loop example_double [] s1 ([cpus_offer ''o1'' 0.5] @ [cpus_offer ''o3'' 4])"
    and p1: "pending s1 = []" by blast
  have "match_loop example_double [] s1 [cpus_offer ''o1'' 0.5, cpus_offer ''o3'' 4]
        = (s1, Inr [cpus_offer ''o1'' 0.5, cpus_offer ''o3'' 4])"
    by (rule match_loop_idle) (simp add: p1)
  with m have run: "match_loop example_double [] ?s ?offers
      = (s1, Inr [cpus_offer ''o1'' 0.5, cpus_offer ''o3'' 4])"
    by simp
  have ids: "map offer_id [cpus_offer ''o1'' 0.5, cpus_offer ''o3'' 4] = [''o1'', ''o3'']"
    by (simp add: cpus_offer_def)
  from resourceOffers_releases_offers
    [where dbl = example_double and dr = "[]" and s = ?s and offers = ?offers and s' = s1
       and rest = "[cpus_offer ''o1'' 0.5, cpus_offer ''o3'' 4]"] run
  have "resourceOffers example_double [] ?s ?offers
        = driver_request (LaunchTasks [''o1'', ''o3''] []) s1"
    unfolding ids by blast
  with run have first: "\<exists>s'. match_loop example_double [] ?s ?offers
          = (s', Inr [cpus_offer ''o1'' 0.5, cpus_offer ''o3'' 4])
        \<and> resourceOffers example_double [] ?s ?offers
          = driver_request (LaunchTasks [''o1'', ''o3''] []) s'"
    by blast
  let ?t = "queued_session [example_item ''a'' 1, example_item ''b'' 1]"
  let ?batch = "[cpus_offer ''o2'' 2, ambiguous_offer]"
  have pt: "pending ?t = example_item ''a'' 1 # [example_item ''b'' 1]"
    by (rule queued_session_pending)
  have fa: "find_offer ?batch [MesosScalarResource ''cpus'' 1] = Inr (Some (cpus_offer ''o2'' 2))"
    by (simp add: find_offer_def cpus_offer_check)
  from launch_current_task_launches[OF n fa, where dbl = example_double and s = ?t
      and waiting = "[example_item ''b'' 1]"]
  obtain s2 task where
    l2: "launch_current_task example_double []
           (?t\<lparr>current_task := Some (example_item ''a'' 1),
               scheduler_tasks := [example_item ''b'' 1]\<rparr>) ?batch
         = (s2, Inr (Some (cpus_offer ''o2'' 2)))"
    and q2: "scheduler_tasks s2 = [example_item ''b'' 1]"
    and c2: "driver_calls s2 = driver_calls ?t @ [LaunchTasks [offer_id (cpus_offer ''o2'' 2)] [task]]"
    by blast
  have rm: "list_remove (cpus_offer ''o2'' 2) ?batch = Inr [ambiguous_offer]"
    by simp
  have la: "launches example_double [] ?t ?batch (s2\<lparr>current_task := None\<rparr>) [ambiguous_offer]"
    by (rule launches_one[OF launches_none pt l2 rm])
  have p2: "pending (s2\<lparr>current_task := None\<rparr>) = example_item ''b'' 1 # []"
    by (simp add: pending_def q2)
  have nb: "get_operator_mesos_resources [] (example_item ''b'' 1)
           = Inr [MesosScalarResource ''cpus'' 1]"
    by (rule example_item_resources)
  have amb: "offer_filter_check (map to_filter [MesosScalarResource ''cpus'' 1]) ambiguous_offer
      = Inl AmbiguousResource"
    by (simp add: ambiguous_offer_def resource_filter_check_def get_resource_def found_def)
  have raises: "matching_raises [] (example_item ''b'' 1) [ambiguous_offer] AmbiguousResource"
    unfolding matching_raises_def
    using nb amb by (intro disjI2 exI[of _ "[MesosScalarResource ''cpus'' 1]"] exI[of _ "[]"]
        exI[of _ ambiguous_offer]) simp
  have neb: "[ambiguous_offer] \<noteq> []" by simp
  have idsb: "map offer_id ?batch = [''o2'', ''o9'']"
    by (simp add: cpus_offer_def ambiguous_offer_def)
  have calls: "driver_calls (s2\<lparr>current_task := None\<rparr>) = [LaunchTasks [''o2''] [task]]"
    by (simp add: c2 queued_session_def idle_session_def cpus_offer_def)
  from resourceOffers_releases_offers
    [where dbl = example_double and dr = "[]" and s = ?t and offers = ?batch
       and ?s1.0 = "s2\<lparr>current_task := None\<rparr>" and pool = "[ambiguous_offer]"
       and item = "example_item ''b'' 1" and waiting = "[]" and e' = AmbiguousResource]
    la p2 neb raises
  have "match_loop example_double [] ?t ?batch
        = ((s2\<lparr>current_task := None\<rparr>)
             \<lparr>current_task := Some (example_item ''b'' 1), scheduler_tasks := []\<rparr>,
           Inl AmbiguousResource)
      \<and> resourceOffers example_double [] ?t ?batch
        = driver_request (LaunchTasks [''o2'', ''o9''] [])
            ((s2\<lparr>current_task := None\<rparr>)
               \<lparr>current_task := Some (example_item ''b'' 1), scheduler_tasks := []\<rparr>)"
    unfolding idsb by blast
  with calls have second: "\<exists>s1 task. driver_calls s1 = [LaunchTasks [''o2''] [task]]
        \<and> match_loop example_double [] ?t ?batch
          = (s1\<lparr>current_task := Some (example_item ''b'' 1), scheduler_tasks := []\<rparr>,
             Inl AmbiguousResource)
        \<and> resourceOffers example_double [] ?t ?batch
          = driver_request (LaunchTasks [''o2'', ''o9''] [])
              (s1\<lparr>current_task := Some (example_item ''b'' 1), scheduler_tasks := []\<rparr>)"
    by blast
  from first second show ?thesis by blast
qed

end
